theory Spec2Isabelle
  imports Main "HOL-Library.Char_ord" "HOL-Library.List_Lexorder" "HOL-Library.AList"
    "HOL-Library.FSet" "HOL-Library.Finite_Map"
begin

section \<open>Strings, dictionaries and exceptions of the Python source\<close>

text \<open>
  The two scripts \<^verbatim>\<open>validate.py\<close> and \<^verbatim>\<open>create_valid_codes_excel.py\<close> work on Python
  strings, dictionaries and sets. The embedding uses
  \<^item> \<^typ>\<open>string\<close> for \<^verbatim>\<open>str\<close>; the characters are read as ASCII code points, and
    \<open>isspace\<close> and \<open>upper\<close> below are Python's on that range (a character above 127 is
    neither white space nor changed by \<open>upper\<close> here);
  \<^item> an association list in insertion order, with pairwise distinct keys, for a
    dictionary whose iteration order the code observes (\<^verbatim>\<open>blocks\<close>, the schema);
    \<^const>\<open>AList.update\<close> is the assignment \<^verbatim>\<open>d[k] = v\<close> (in place for an existing key,
    at the end for a new one) and \<^const>\<open>map_of\<close> the lookup;
  \<^item> a finite map to finite sets for \<^verbatim>\<open>valid_lookup\<close> and the catalog of the Excel
    script, whose order is never observed (only membership, \<^verbatim>\<open>sorted\<close> and \<^verbatim>\<open>max\<close>);
  \<^item> a sum type with the exception on the left for every function that can raise.
\<close>

datatype py_error = KeyError | IndexError | ValueError

definition isspace :: "char \<Rightarrow> bool" where
  "isspace c \<longleftrightarrow> c \<in> set [CHR 0x09, CHR 0x0A, CHR 0x0B, CHR 0x0C, CHR 0x0D,
                          CHR 0x1C, CHR 0x1D, CHR 0x1E, CHR 0x1F, CHR 0x20]"

definition strip :: "string \<Rightarrow> string" where
  "strip s = rev (dropWhile isspace (rev (dropWhile isspace s)))"

definition upper_char :: "char \<Rightarrow> char" where
  "upper_char c =
     (case map_of (zip ''abcdefghijklmnopqrstuvwxyz'' ''ABCDEFGHIJKLMNOPQRSTUVWXYZ'') c of
        Some u \<Rightarrow> u
      | None \<Rightarrow> c)"

definition upper :: "string \<Rightarrow> string" where
  "upper s = map upper_char s"

definition startswith :: "string \<Rightarrow> string \<Rightarrow> bool" where
  "startswith s p \<longleftrightarrow> take (length p) s = p"

text \<open>\<^verbatim>\<open>s.split(sep)\<close> for a separator of one character: never an empty list.\<close>

fun split :: "char \<Rightarrow> string \<Rightarrow> string list" where
  "split sep [] = [[]]"
| "split sep (c # cs) =
     (if c = sep then [] # split sep cs
      else (case split sep cs of
              [] \<Rightarrow> [[c]]
            | p # ps \<Rightarrow> (c # p) # ps))"

text \<open>\<^verbatim>\<open>sep.join(xs)\<close>.\<close>

fun join :: "string \<Rightarrow> string list \<Rightarrow> string" where
  "join sep [] = []"
| "join sep [x] = x"
| "join sep (x # y # ys) = x @ sep @ join sep (y # ys)"

text \<open>
  \<^verbatim>\<open>xs[i]\<close> for a Python integer \<open>i\<close>: a negative index counts from the end, and an
  index outside \<open>-len(xs) .. len(xs) - 1\<close> raises \<^verbatim>\<open>IndexError\<close>.
\<close>

definition py_index :: "'a list \<Rightarrow> int \<Rightarrow> py_error + 'a" where
  "py_index xs i =
     (if 0 \<le> i \<and> i < int (length xs) then Inr (xs ! nat i)
      else if i < 0 \<and> - int (length xs) \<le> i then Inr (xs ! nat (int (length xs) + i))
      else Inl IndexError)"

text \<open>A \<^verbatim>\<open>for\<close> loop over a list whose body may raise: the first exception ends it.\<close>

fun for_loop :: "('s \<Rightarrow> 'a \<Rightarrow> py_error + 's) \<Rightarrow> 's \<Rightarrow> 'a list \<Rightarrow> py_error + 's" where
  "for_loop body st [] = Inr st"
| "for_loop body st (x # xs) =
     (case body st x of
        Inl e \<Rightarrow> Inl e
      | Inr st' \<Rightarrow> for_loop body st' xs)"

section \<open>The header pattern of \<^verbatim>\<open>parse_ev5_blocks\<close>\<close>

text \<open>
  \<^verbatim>\<open>re.match(r"^-{2,}\s*([A-Z ]+)\s*-{2,}$", line)\<close>. The pattern is a sequence of five
  greedy repetitions of a character class, each with a lower bound and no upper bound,
  anchored at both ends. \<open>match_seq\<close> is the backtracking matcher: every repetition first
  takes the longest run of its class and gives characters back one at a time while the
  rest of the pattern fails. The result of a successful match is the text each repetition
  took, in order; group 1 of the pattern is the third. \<^verbatim>\<open>$\<close> matches at the end of the
  string and before a final newline.
\<close>

type_synonym rep = "(char \<Rightarrow> bool) \<times> nat"

fun match_seq :: "rep list \<Rightarrow> string \<Rightarrow> string list option"
  and try_rep :: "(char \<Rightarrow> bool) \<Rightarrow> nat \<Rightarrow> rep list \<Rightarrow> string \<Rightarrow> nat \<Rightarrow> string list option"
where
  "match_seq [] s = (if s = [] \<or> s = [CHR 0x0A] then Some [] else None)"
| "match_seq ((p, lo) # rs) s = try_rep p lo rs s (length (takeWhile p s))"
| "try_rep p lo rs s n =
     (if n < lo then None
      else (case match_seq rs (drop n s) of
              Some gs \<Rightarrow> Some (take n s # gs)
            | None \<Rightarrow> (case n of 0 \<Rightarrow> None | Suc m \<Rightarrow> try_rep p lo rs s m)))"

definition is_dash :: "char \<Rightarrow> bool" where
  "is_dash c \<longleftrightarrow> c = CHR ''-''"

definition name_char :: "char \<Rightarrow> bool" where
  "name_char c \<longleftrightarrow> c \<in> set ''ABCDEFGHIJKLMNOPQRSTUVWXYZ ''"

definition header_pattern :: "rep list" where
  "header_pattern = [(is_dash, 2), (isspace, 0), (name_char, 1), (isspace, 0), (is_dash, 2)]"

text \<open>\<open>header_match line\<close> is \<^verbatim>\<open>header_match.group(1)\<close>, or \<open>None\<close> when there is no match.\<close>

definition header_match :: "string \<Rightarrow> string option" where
  "header_match line =
     (case match_seq header_pattern line of
        Some [d1, w1, g, w2, d2] \<Rightarrow> Some g
      | _ \<Rightarrow> None)"

section \<open>\<^verbatim>\<open>parse_ev5_blocks\<close>\<close>

type_synonym blocks = "(string \<times> string list) list"

text \<open>
  One iteration of \<^verbatim>\<open>for line in f\<close>, on the state \<^verbatim>\<open>(blocks, current_block)\<close>.
  \<^verbatim>\<open>if current_block:\<close> is false for \<^verbatim>\<open>None\<close> and for the empty string.
\<close>

definition parse_line :: "blocks \<times> string option \<Rightarrow> string \<Rightarrow> py_error + blocks \<times> string option" where
  "parse_line st raw =
     (case st of (blocks, current_block) \<Rightarrow>
        let line = strip raw in
        if line = [] \<or> startswith line ''#'' then Inr st
        else (case header_match line of
                Some g \<Rightarrow>
                  (let cb = upper (strip g) in Inr (AList.update cb [] blocks, Some cb))
              | None \<Rightarrow>
                  (case current_block of
                     None \<Rightarrow> Inr st
                   | Some cb \<Rightarrow>
                       if cb = [] then Inr st
                       else (case map_of blocks cb of
                               None \<Rightarrow> Inl KeyError
                             | Some ls \<Rightarrow>
                                 Inr (AList.update cb (ls @ [line]) blocks, current_block)))))"

text \<open>The file is given as the list of its lines, each with or without its line end.\<close>

definition parse_ev5_blocks :: "string list \<Rightarrow> py_error + blocks" where
  "parse_ev5_blocks f =
     (case for_loop parse_line ([], None) f of
        Inl e \<Rightarrow> Inl e
      | Inr (blocks, current_block) \<Rightarrow> Inr blocks)"

section \<open>\<^verbatim>\<open>validate_ev5_blocks\<close>\<close>

text \<open>
  The schema is the dictionary loaded from \<^verbatim>\<open>schema.json\<close>: block name to (field name
  to column position), both levels in the order of the file. A catalog record is a
  dictionary with string values; \<^verbatim>\<open>v.get(k, "")\<close> is \<open>dict_get v k []\<close>.
\<close>

type_synonym schema = "(string \<times> (string \<times> int) list) list"

type_synonym code_record = "string \<rightharpoonup> string"

type_synonym valid_lookup = "(string, string fset) fmap"

record finding =
  Block :: string
  Field :: string
  Value :: string
  Line :: nat
  Column :: int
  ExpectedCodes :: string
  InvalidType :: string
  Status :: string

definition dict_get :: "('k \<rightharpoonup> 'v) \<Rightarrow> 'k \<Rightarrow> 'v \<Rightarrow> 'v" where
  "dict_get d k dflt = (case d k of None \<Rightarrow> dflt | Some v \<Rightarrow> v)"

text \<open>The body of the loop that builds \<^verbatim>\<open>valid_lookup\<close>.\<close>

definition add_code :: "valid_lookup \<Rightarrow> code_record \<Rightarrow> valid_lookup" where
  "add_code valid_lookup v =
     (let name = upper (strip (dict_get v ''codeName'' []));
          code = upper (strip (dict_get v ''code'' []))
      in if name \<noteq> [] \<and> code \<noteq> []
         then fmupd name
                (finsert code (case fmlookup valid_lookup name of None \<Rightarrow> {||} | Some s \<Rightarrow> s))
                valid_lookup
         else valid_lookup)"

definition build_lookup :: "code_record list \<Rightarrow> valid_lookup" where
  "build_lookup valid_codes = foldl add_code fmempty valid_codes"

text \<open>
  The body of \<^verbatim>\<open>for field_type, col in schema[block].items()\<close>, on the state
  \<^verbatim>\<open>(checked_count, invalid_entries)\<close>. The only guard before \<^verbatim>\<open>parts[idx]\<close> is
  \<^verbatim>\<open>idx >= len(parts)\<close>.
\<close>

definition check_field ::
  "valid_lookup \<Rightarrow> bool \<Rightarrow> bool \<Rightarrow> string \<Rightarrow> nat \<Rightarrow> string list \<Rightarrow>
   nat \<times> finding list \<Rightarrow> string \<times> int \<Rightarrow> py_error + nat \<times> finding list" where
  "check_field valid_lookup validate_field_types validate_codes block line_num parts st fc =
     (case st of (checked_count, invalid_entries) \<Rightarrow>
      case fc of (field_type, col) \<Rightarrow>
        let idx = col - 1 in
        if idx \<ge> int (length parts) then Inr st
        else (case py_index parts idx of
                Inl e \<Rightarrow> Inl e
              | Inr p \<Rightarrow>
                  let value = upper (strip p) in
                  if value = [] then Inr st
                  else
                    let checked_count = checked_count + 1;
                        field_type_upper = upper (strip field_type)
                    in
                    if validate_field_types \<and> fmlookup valid_lookup field_type_upper = None
                    then Inr (checked_count, invalid_entries @
                           [\<lparr>Block = block, Field = field_type, Value = value,
                             Line = line_num, Column = col,
                             ExpectedCodes = ''Field type not recognized'',
                             InvalidType = ''FIELD'', Status = ''INVALID''\<rparr>])
                    else if validate_codes
                    then (case fmlookup valid_lookup field_type_upper of
                            None \<Rightarrow> Inr (checked_count, invalid_entries)
                          | Some codes \<Rightarrow>
                              if value |\<notin>| codes
                              then Inr (checked_count, invalid_entries @
                                     [\<lparr>Block = block, Field = field_type, Value = value,
                                       Line = line_num, Column = col,
                                       ExpectedCodes =
                                         join '', '' (sorted_list_of_fset codes),
                                       InvalidType = ''CODE'', Status = ''INVALID''\<rparr>])
                              else Inr (checked_count, invalid_entries))
                    else Inr (checked_count, invalid_entries)))"

text \<open>
  The body of \<^verbatim>\<open>for line_num, row in enumerate(rows, start=1)\<close>; \<^verbatim>\<open>schema[block]\<close> is
  looked up once for every row.
\<close>

definition check_row ::
  "valid_lookup \<Rightarrow> bool \<Rightarrow> bool \<Rightarrow> schema \<Rightarrow> string \<Rightarrow>
   nat \<times> finding list \<Rightarrow> nat \<times> string \<Rightarrow> py_error + nat \<times> finding list" where
  "check_row valid_lookup validate_field_types validate_codes schema block st nr =
     (case nr of (line_num, row) \<Rightarrow>
        let parts = split (CHR ''|'') row in
        (case map_of schema block of
           None \<Rightarrow> Inl KeyError
         | Some items \<Rightarrow>
             for_loop
               (check_field valid_lookup validate_field_types validate_codes block line_num parts)
               st items))"

text \<open>\<^verbatim>\<open>enumerate(rows, start=1)\<close>.\<close>

definition enumerate1 :: "'a list \<Rightarrow> (nat \<times> 'a) list" where
  "enumerate1 rows = zip [1 ..< Suc (length rows)] rows"

text \<open>The body of \<^verbatim>\<open>for block, rows in blocks.items()\<close>.\<close>

definition check_block ::
  "valid_lookup \<Rightarrow> bool \<Rightarrow> bool \<Rightarrow> schema \<Rightarrow>
   nat \<times> finding list \<Rightarrow> string \<times> string list \<Rightarrow> py_error + nat \<times> finding list" where
  "check_block valid_lookup validate_field_types validate_codes schema st br =
     (case br of (block, rows) \<Rightarrow>
        if map_of schema (upper block) = None then Inr st
        else for_loop
               (check_row valid_lookup validate_field_types validate_codes schema block)
               st (enumerate1 rows))"

definition validate_ev5_blocks ::
  "string list \<Rightarrow> schema \<Rightarrow> code_record list \<Rightarrow> bool \<Rightarrow> bool \<Rightarrow>
   py_error + nat \<times> finding list" where
  "validate_ev5_blocks f schema valid_codes validate_field_types validate_codes =
     (case parse_ev5_blocks f of
        Inl e \<Rightarrow> Inl e
      | Inr blocks \<Rightarrow>
          let valid_lookup = build_lookup valid_codes in
          for_loop (check_block valid_lookup validate_field_types validate_codes schema)
            (0, []) blocks)"

section \<open>The iteration order of a set\<close>

text \<open>
  The order in which Python iterates a \<^verbatim>\<open>set\<close> of strings is not fixed by the program: it
  follows the hashes of the strings, which change from one run of the interpreter to the
  next. A run is therefore modelled with a parameter \<open>h\<close>, the order in which that run
  iterates each set; \<open>iterates h\<close> says that \<open>h\<close> yields every element of the set once.
  The dictionaries iterate in insertion order in every run. The only place where
  \<^verbatim>\<open>validate_ev5_blocks\<close> iterates a set is \<^verbatim>\<open>sorted(valid_lookup[field_type_upper])\<close>, which
  is \<open>sort (h codes)\<close> in a run. The functions below are the validator of a run: they are
  \<open>check_field\<close>, \<open>check_row\<close>, \<open>check_block\<close> and \<open>validate_ev5_blocks\<close> with that
  iteration made explicit.
\<close>

type_synonym set_order = "string fset \<Rightarrow> string list"

definition iterates :: "set_order \<Rightarrow> bool" where
  "iterates h \<longleftrightarrow> (\<forall>S. distinct (h S) \<and> set (h S) = fset S)"

definition check_field_run ::
  "set_order \<Rightarrow> valid_lookup \<Rightarrow> bool \<Rightarrow> bool \<Rightarrow> string \<Rightarrow> nat \<Rightarrow> string list \<Rightarrow>
   nat \<times> finding list \<Rightarrow> string \<times> int \<Rightarrow> py_error + nat \<times> finding list" where
  "check_field_run h valid_lookup validate_field_types validate_codes block line_num parts st fc =
     (case st of (checked_count, invalid_entries) \<Rightarrow>
      case fc of (field_type, col) \<Rightarrow>
        let idx = col - 1 in
        if idx \<ge> int (length parts) then Inr st
        else (case py_index parts idx of
                Inl e \<Rightarrow> Inl e
              | Inr p \<Rightarrow>
                  let value = upper (strip p) in
                  if value = [] then Inr st
                  else
                    let checked_count = checked_count + 1;
                        field_type_upper = upper (strip field_type)
                    in
                    if validate_field_types \<and> fmlookup valid_lookup field_type_upper = None
                    then Inr (checked_count, invalid_entries @
                           [\<lparr>Block = block, Field = field_type, Value = value,
                             Line = line_num, Column = col,
                             ExpectedCodes = ''Field type not recognized'',
                             InvalidType = ''FIELD'', Status = ''INVALID''\<rparr>])
                    else if validate_codes
                    then (case fmlookup valid_lookup field_type_upper of
                            None \<Rightarrow> Inr (checked_count, invalid_entries)
                          | Some codes \<Rightarrow>
                              if value |\<notin>| codes
                              then Inr (checked_count, invalid_entries @
                                     [\<lparr>Block = block, Field = field_type, Value = value,
                                       Line = line_num, Column = col,
                                       ExpectedCodes = join '', '' (sort (h codes)),
                                       InvalidType = ''CODE'', Status = ''INVALID''\<rparr>])
                              else Inr (checked_count, invalid_entries))
                    else Inr (checked_count, invalid_entries)))"

definition check_row_run ::
  "set_order \<Rightarrow> valid_lookup \<Rightarrow> bool \<Rightarrow> bool \<Rightarrow> schema \<Rightarrow> string \<Rightarrow>
   nat \<times> finding list \<Rightarrow> nat \<times> string \<Rightarrow> py_error + nat \<times> finding list" where
  "check_row_run h valid_lookup validate_field_types validate_codes schema block st nr =
     (case nr of (line_num, row) \<Rightarrow>
        let parts = split (CHR ''|'') row in
        (case map_of schema block of
           None \<Rightarrow> Inl KeyError
         | Some items \<Rightarrow>
             for_loop
               (check_field_run h valid_lookup validate_field_types validate_codes block
                  line_num parts)
               st items))"

definition check_block_run ::
  "set_order \<Rightarrow> valid_lookup \<Rightarrow> bool \<Rightarrow> bool \<Rightarrow> schema \<Rightarrow>
   nat \<times> finding list \<Rightarrow> string \<times> string list \<Rightarrow> py_error + nat \<times> finding list" where
  "check_block_run h valid_lookup validate_field_types validate_codes schema st br =
     (case br of (block, rows) \<Rightarrow>
        if map_of schema (upper block) = None then Inr st
        else for_loop
               (check_row_run h valid_lookup validate_field_types validate_codes schema block)
               st (enumerate1 rows))"

definition validate_ev5_blocks_run ::
  "set_order \<Rightarrow> string list \<Rightarrow> schema \<Rightarrow> code_record list \<Rightarrow> bool \<Rightarrow> bool \<Rightarrow>
   py_error + nat \<times> finding list" where
  "validate_ev5_blocks_run h f schema valid_codes validate_field_types validate_codes =
     (case parse_ev5_blocks f of
        Inl e \<Rightarrow> Inl e
      | Inr blocks \<Rightarrow>
          let valid_lookup = build_lookup valid_codes in
          for_loop (check_block_run h valid_lookup validate_field_types validate_codes schema)
            (0, []) blocks)"

text \<open>
  Two iteration orders, for examples: ascending and descending. \<open>unsorted_expected\<close> is
  the expected-codes text that a validator without \<^verbatim>\<open>sorted\<close> would write in a run.
\<close>

definition ascending :: set_order where
  "ascending S = sorted_list_of_fset S"

definition descending :: set_order where
  "descending S = rev (sorted_list_of_fset S)"

definition unsorted_expected :: "set_order \<Rightarrow> string fset \<Rightarrow> string" where
  "unsorted_expected h codes = join '', '' (h codes)"

section \<open>\<^verbatim>\<open>save_valid_codes_excel\<close>\<close>

text \<open>
  The worksheet is the list of the rows given to \<^verbatim>\<open>ws.append\<close>, in order. \<^verbatim>\<open>max\<close> of
  an empty sequence raises \<^verbatim>\<open>ValueError\<close>. The source's \<^verbatim>\<open>fields\<close> is \<open>field_list\<close>
  here.
\<close>

fun py_max :: "nat list \<Rightarrow> py_error + nat" where
  "py_max [] = Inl ValueError"
| "py_max (x # xs) = Inr (fold max xs x)"

definition dict_values :: "('k::linorder, 'v) fmap \<Rightarrow> 'v list" where
  "dict_values d = List.map_filter (fmlookup d) (sorted_list_of_fset (fmdom d))"

definition excel_cell :: "valid_lookup \<Rightarrow> nat \<Rightarrow> string list \<Rightarrow> string \<Rightarrow> py_error + string list" where
  "excel_cell valid_codes i row field =
     (case fmlookup valid_codes field of
        None \<Rightarrow> Inl KeyError
      | Some cs \<Rightarrow>
          let codes = sorted_list_of_fset cs in
          Inr (row @ [if i < length codes then codes ! i else []]))"

definition excel_row :: "valid_lookup \<Rightarrow> string list \<Rightarrow> string list list \<Rightarrow> nat \<Rightarrow> py_error + string list list" where
  "excel_row valid_codes field_list ws i =
     (case for_loop (excel_cell valid_codes i) [] field_list of
        Inl e \<Rightarrow> Inl e
      | Inr row \<Rightarrow> Inr (ws @ [row]))"

definition save_valid_codes_excel :: "valid_lookup \<Rightarrow> py_error + string list list" where
  "save_valid_codes_excel valid_codes =
     (let field_list = sorted_list_of_fset (fmdom valid_codes);
          ws = [field_list]
      in case py_max (map fcard (dict_values valid_codes)) of
           Inl e \<Rightarrow> Inl e
         | Inr max_len \<Rightarrow> for_loop (excel_row valid_codes field_list) ws [0 ..< max_len])"

section \<open>The block membership of the specification\<close>

text \<open>The name a header line opens: group 1 of the match, trimmed and upper-cased.\<close>

definition header_name :: "string \<Rightarrow> string option" where
  "header_name line = map_option (\<lambda>g. upper (strip g)) (header_match line)"

text \<open>The lines of a file that the parser does not skip: trimmed, non-empty, not a comment.\<close>

definition sig_lines :: "string list \<Rightarrow> string list" where
  "sig_lines f = filter (\<lambda>line. line \<noteq> [] \<and> \<not> startswith line ''#'') (map strip f)"

text \<open>
  The specification's words: a block name maps to the lines that follow the last header
  of that name and precede the next header or the end of the file; a name with no header
  has no block. \<open>spec_after_last_header\<close> reads the trimmed, non-skipped lines.
\<close>

fun spec_after_last_header :: "string \<Rightarrow> string list \<Rightarrow> string list option" where
  "spec_after_last_header name [] = None"
| "spec_after_last_header name (l # ls) =
     (case spec_after_last_header name ls of
        Some c \<Rightarrow> Some c
      | None \<Rightarrow>
          if header_name l = Some name
          then Some (takeWhile (\<lambda>x. header_match x = None) ls)
          else None)"

definition spec_block_lines :: "string \<Rightarrow> string list \<Rightarrow> string list option" where
  "spec_block_lines name f = spec_after_last_header name (sig_lines f)"

section \<open>Notions of the proofs\<close>

text \<open>
  The invariant of the parser's loop (no block name twice, every name upper-cased, the
  current block among the names), and what the loop leaves under a name when it starts
  in any state and reads the trimmed, non-skipped lines \<open>sl\<close>.
\<close>

definition parse_inv :: "blocks \<times> string option \<Rightarrow> bool" where
  "parse_inv st \<longleftrightarrow>
     distinct (map fst (fst st)) \<and>
     (\<forall>k \<in> fst ` set (fst st). upper k = k) \<and>
     (\<forall>cb. snd st = Some cb \<longrightarrow> cb \<in> fst ` set (fst st))"

definition after_loop :: "blocks \<times> string option \<Rightarrow> string list \<Rightarrow> string \<Rightarrow> string list option" where
  "after_loop st sl name =
     (case spec_after_last_header name sl of
        Some c \<Rightarrow> Some (if name = [] then [] else c)
      | None \<Rightarrow>
          if snd st = Some name \<and> name \<noteq> []
          then map_option (\<lambda>ls. ls @ takeWhile (\<lambda>x. header_match x = None) sl)
                 (map_of (fst st) name)
          else map_of (fst st) name)"

text \<open>
  What the body of the field loop does with the text \<open>p\<close> of the column it has read
  (lines 136 to 173 of \<^verbatim>\<open>validate.py\<close>): trim and upper-case, skip an empty value, count
  the occurrence, then the \<open>FIELD\<close> and the \<open>CODE\<close> check.
\<close>

definition check_value ::
  "valid_lookup \<Rightarrow> bool \<Rightarrow> bool \<Rightarrow> string \<Rightarrow> nat \<Rightarrow>
   nat \<times> finding list \<Rightarrow> string \<times> int \<Rightarrow> string \<Rightarrow> py_error + nat \<times> finding list" where
  "check_value valid_lookup validate_field_types validate_codes block line_num st fc p =
     (case st of (checked_count, invalid_entries) \<Rightarrow>
      case fc of (field_type, col) \<Rightarrow>
        let value = upper (strip p) in
        if value = [] then Inr st
        else
          let checked_count = checked_count + 1;
              field_type_upper = upper (strip field_type)
          in
          if validate_field_types \<and> fmlookup valid_lookup field_type_upper = None
          then Inr (checked_count, invalid_entries @
                 [\<lparr>Block = block, Field = field_type, Value = value,
                   Line = line_num, Column = col,
                   ExpectedCodes = ''Field type not recognized'',
                   InvalidType = ''FIELD'', Status = ''INVALID''\<rparr>])
          else if validate_codes
          then (case fmlookup valid_lookup field_type_upper of
                  None \<Rightarrow> Inr (checked_count, invalid_entries)
                | Some codes \<Rightarrow>
                    if value |\<notin>| codes
                    then Inr (checked_count, invalid_entries @
                           [\<lparr>Block = block, Field = field_type, Value = value,
                             Line = line_num, Column = col,
                             ExpectedCodes = join '', '' (sorted_list_of_fset codes),
                             InvalidType = ''CODE'', Status = ''INVALID''\<rparr>])
                    else Inr (checked_count, invalid_entries))
          else Inr (checked_count, invalid_entries))"

text \<open>Membership of a code in the index, under a field type.\<close>

definition in_lookup :: "valid_lookup \<Rightarrow> string \<Rightarrow> string \<Rightarrow> bool" where
  "in_lookup valid_lookup name code \<longleftrightarrow>
     (case fmlookup valid_lookup name of None \<Rightarrow> False | Some codes \<Rightarrow> code |\<in>| codes)"

text \<open>
  The text of the worksheet's cell in data row \<open>i\<close> (from 0) under a field: the code at
  index \<open>i\<close> of the field's sorted codes, or the empty string.
\<close>

definition cell_at :: "valid_lookup \<Rightarrow> nat \<Rightarrow> string \<Rightarrow> string" where
  "cell_at valid_codes i field =
     (case fmlookup valid_codes field of
        None \<Rightarrow> []
      | Some cs \<Rightarrow> if i < fcard cs then sorted_list_of_fset cs ! i else [])"

section \<open>Example inputs\<close>

text \<open>The catalog of Scenario A: the codes \<open>A\<close> and \<open>B\<close> of the field type \<open>BELT_TYPE\<close>.\<close>

definition scenario_catalog :: "code_record list" where
  "scenario_catalog =
     [[''codeName'' \<mapsto> ''BELT_TYPE'', ''code'' \<mapsto> ''A''],
      [''codeName'' \<mapsto> ''BELT_TYPE'', ''code'' \<mapsto> ''B'']]"

text \<open>
  A catalog with the same index, in another order and with other case and white space;
  its last two records have no field-type name after trimming and are skipped.
\<close>

definition other_catalog :: "code_record list" where
  "other_catalog =
     [[''codeName'' \<mapsto> '' belt_type'', ''code'' \<mapsto> ''b '', ''description'' \<mapsto> ''lap''],
      [''codeName'' \<mapsto> ''BELT_TYPE'', ''code'' \<mapsto> ''A''],
      [''codeName'' \<mapsto> ''Belt_Type'', ''code'' \<mapsto> ''a''],
      [''codeName'' \<mapsto> ''  '', ''code'' \<mapsto> ''Z''],
      [''code'' \<mapsto> ''Q'']]"

text \<open>A schema whose second field lies beyond the columns of a line of three.\<close>

definition ragged_schema :: schema where
  "ragged_schema = [(''SAFETY'', [(''BELT_TYPE'', 2), (''FAR'', 7), (''LAST'', 3)])]"

text \<open>A catalog for the worksheet, as \<^verbatim>\<open>fetch_valid_codes\<close> of the Excel script returns it.\<close>

definition excel_catalog :: valid_lookup where
  "excel_catalog =
     fmupd ''SEAT'' {|''R'', ''F''|} (fmupd ''BELT_TYPE'' {|''C'', ''A'', ''B''|} fmempty)"

section \<open>Loops\<close>


lemma for_loop_invariant:
  assumes "for_loop body st xs = Inr st'" and "P st"
    and "\<And>s x s'. x \<in> set xs \<Longrightarrow> P s \<Longrightarrow> body s x = Inr s' \<Longrightarrow> P s'"
  shows "P st'"
  using assms
proof (induction xs arbitrary: st)
  case Nil
  then show ?case by simp
next
  case (Cons x xs)
  from Cons.prems(1) obtain s1 where b: "body st x = Inr s1" and r: "for_loop body s1 xs = Inr st'"
    by (auto split: sum.splits)
  have "P s1" using Cons.prems(3) [of x st s1] Cons.prems(2) b by simp
  show ?case
  proof (rule Cons.IH [OF r \<open>P s1\<close>])
    fix s y s'
    assume "y \<in> set xs" "P s" "body s y = Inr s'"
    then show "P s'" using Cons.prems(3) [of y s s'] by simp
  qed
qed

lemma for_loop_total:
  assumes "\<And>s x. x \<in> set xs \<Longrightarrow> \<exists>s'. body s x = Inr s'"
  shows "\<exists>st'. for_loop body st xs = Inr st'"
  using assms
proof (induction xs arbitrary: st)
  case Nil
  then show ?case by simp
next
  case (Cons x xs)
  obtain s1 where b: "body st x = Inr s1" using Cons.prems by fastforce
  then show ?case using Cons.IH [of s1] Cons.prems by simp
qed

section \<open>Scenario A\<close>

text \<open>
  C2. On the file with the lines \<open>--- SAFETY ---\<close> and \<open>X|C|Y\<close>, the schema
  \<open>{"SAFETY": {"BELT_TYPE": 2}}\<close> and the catalog whose index maps \<open>BELT_TYPE\<close> to
  \<open>{A, B}\<close>, with code validation enabled and field-type validation either way, the
  validator checks one field occurrence and returns exactly one finding: block \<open>SAFETY\<close>,
  line 1, column 2, field \<open>BELT_TYPE\<close>, value \<open>C\<close>, kind \<open>CODE\<close>, expected codes
  \<open>A, B\<close>, status \<open>INVALID\<close>.
\<close>

theorem scenario_A:
  "fmlookup (build_lookup scenario_catalog) ''BELT_TYPE'' = Some {|''A'', ''B''|} \<and>
   validate_ev5_blocks [''--- SAFETY ---'', ''X|C|Y''] [(''SAFETY'', [(''BELT_TYPE'', 2)])]
     scenario_catalog validate_field_types True =
   Inr (1, [\<lparr>Block = ''SAFETY'', Field = ''BELT_TYPE'', Value = ''C'', Line = 1, Column = 2,
             ExpectedCodes = ''A, B'', InvalidType = ''CODE'', Status = ''INVALID''\<rparr>])"
proof (cases validate_field_types)
  case True
  show ?thesis unfolding scenario_catalog_def Eq_TrueI [OF True] by code_simp
next
  case False
  show ?thesis unfolding scenario_catalog_def Eq_FalseI [OF False] by code_simp
qed

section \<open>The parser\<close>

lemma upper_char_idem: "upper_char (upper_char c) = upper_char c"
  by (simp add: upper_char_def)

lemma upper_idem: "upper (upper s) = upper s"
  by (simp add: upper_def upper_char_idem)

lemma sig_lines_Cons:
  "sig_lines (l # f) =
     (if strip l = [] \<or> startswith (strip l) ''#'' then sig_lines f else strip l # sig_lines f)"
  by (simp add: sig_lines_def)

lemma parse_line_skip:
  "strip raw = [] \<or> startswith (strip raw) ''#'' \<Longrightarrow> parse_line st raw = Inr st"
  by (cases st) (simp add: parse_line_def)

lemma parse_line_header:
  "\<not> (strip raw = [] \<or> startswith (strip raw) ''#'') \<Longrightarrow> header_name (strip raw) = Some h \<Longrightarrow>
   parse_line (blocks, cur) raw = Inr (AList.update h [] blocks, Some h)"
  by (auto simp: parse_line_def header_name_def Let_def)

lemma parse_line_content:
  "\<not> (strip raw = [] \<or> startswith (strip raw) ''#'') \<Longrightarrow> header_name (strip raw) = None \<Longrightarrow>
   parse_line (blocks, cur) raw =
     (case cur of
        None \<Rightarrow> Inr (blocks, cur)
      | Some cb \<Rightarrow>
          if cb = [] then Inr (blocks, cur)
          else (case map_of blocks cb of
                  None \<Rightarrow> Inl KeyError
                | Some ls \<Rightarrow> Inr (AList.update cb (ls @ [strip raw]) blocks, cur)))"
  by (auto simp: parse_line_def header_name_def Let_def split: option.splits)

lemma header_name_None: "header_name l = None \<longleftrightarrow> header_match l = None"
  by (simp add: header_name_def)

lemma parse_line_inv:
  assumes "parse_inv st"
  shows "\<exists>st'. parse_line st raw = Inr st' \<and> parse_inv st'"
proof (cases st)
  case (Pair blocks cur)
  show ?thesis
  proof (cases "strip raw = [] \<or> startswith (strip raw) ''#''")
    case True
    then show ?thesis using assms parse_line_skip by simp
  next
    case False
    show ?thesis
    proof (cases "header_name (strip raw)")
      case None
      note c = parse_line_content [OF False None, of blocks cur]
      show ?thesis
      proof (cases cur)
        case None
        then show ?thesis using c assms Pair by simp
      next
        case (Some cb)
        then have "cb \<in> fst ` set blocks" using assms Pair by (simp add: parse_inv_def)
        then obtain ls where ls: "map_of blocks cb = Some ls"
          by (metis map_of_eq_None_iff not_Some_eq)
        show ?thesis
        proof (cases "cb = []")
          case True
          then show ?thesis using c assms Pair Some by simp
        next
          case False
          then have "parse_line st raw = Inr (AList.update cb (ls @ [strip raw]) blocks, cur)"
            using c Pair Some ls by simp
          moreover have "parse_inv (AList.update cb (ls @ [strip raw]) blocks, cur)"
            using assms Pair Some \<open>cb \<in> fst ` set blocks\<close>
            by (auto simp: parse_inv_def distinct_update dom_update)
          ultimately show ?thesis by simp
        qed
      qed
    next
      case (Some h)
      then have "upper h = h" by (auto simp: header_name_def upper_idem)
      then have "parse_inv (AList.update h [] blocks, Some h)"
        using assms Pair by (auto simp: parse_inv_def distinct_update dom_update)
      then show ?thesis using Pair parse_line_header [OF False Some] by simp
    qed
  qed
qed

lemma parse_loop_inv:
  "parse_inv st \<Longrightarrow> \<exists>st'. for_loop parse_line st f = Inr st' \<and> parse_inv st'"
proof (induction f arbitrary: st)
  case Nil
  then show ?case by simp
next
  case (Cons l f)
  obtain s1 where "parse_line st l = Inr s1" "parse_inv s1"
    using parse_line_inv [OF Cons.prems] by blast
  then show ?case using Cons.IH [of s1] by simp
qed

lemma parse_inv_init: "parse_inv ([], None)"
  by (simp add: parse_inv_def)

lemma parse_loop_char:
  assumes "parse_inv st" and "for_loop parse_line st f = Inr st'"
  shows "map_of (fst st') name = after_loop st (sig_lines f) name"
  using assms
proof (induction f arbitrary: st)
  case Nil
  then show ?case
    by (auto simp: after_loop_def sig_lines_def option.map_ident split: option.splits)
next
  case (Cons l f)
  obtain blocks cur where st: "st = (blocks, cur)" by (cases st)
  obtain s1 where s1: "parse_line st l = Inr s1" and inv1: "parse_inv s1"
    using parse_line_inv [OF Cons.prems(1)] by blast
  then have loop: "for_loop parse_line s1 f = Inr st'" using Cons.prems(2) by simp
  note IH = Cons.IH [OF inv1 loop]
  show ?case
  proof (cases "strip l = [] \<or> startswith (strip l) ''#''")
    case True
    then have "s1 = st" using s1 parse_line_skip by simp
    moreover have "sig_lines (l # f) = sig_lines f" using True by (auto simp: sig_lines_Cons)
    ultimately show ?thesis using IH by simp
  next
    case False
    then have sg: "sig_lines (l # f) = strip l # sig_lines f" by (simp add: sig_lines_Cons)
    show ?thesis
    proof (cases "header_name (strip l)")
      case None
      then have nh: "header_match (strip l) = None" by (simp add: header_name_None)
      note c = parse_line_content [OF False None, of blocks cur]
      show ?thesis
      proof (cases "\<exists>cb. cur = Some cb \<and> cb \<noteq> []")
        case True
        then obtain cb where cb: "cur = Some cb" "cb \<noteq> []" by blast
        then have "cb \<in> fst ` set blocks" using Cons.prems(1) st by (simp add: parse_inv_def)
        then obtain ls where ls: "map_of blocks cb = Some ls"
          by (metis map_of_eq_None_iff not_Some_eq)
        have s1': "s1 = (AList.update cb (ls @ [strip l]) blocks, cur)"
          using c s1 st cb ls by simp
        show ?thesis using IH cb ls None nh
          by (auto simp: after_loop_def sg s1' st update_conv' split: option.splits)
      next
        case False
        then have "s1 = st" using c s1 st by (auto split: option.splits)
        then show ?thesis using IH False None nh st
          by (auto simp: after_loop_def sg split: option.splits)
      qed
    next
      case (Some h)
      then have hm: "header_match (strip l) \<noteq> None" by (auto simp: header_name_def)
      have s1': "s1 = (AList.update h [] blocks, Some h)"
        using parse_line_header [OF False Some, of blocks cur] s1 st by simp
      show ?thesis using IH Some hm
        by (auto simp: after_loop_def sg s1' st update_conv' option.map_ident split: option.splits)
    qed
  qed
qed

lemma parse_ev5_blocks_char:
  "\<exists>blocks. parse_ev5_blocks f = Inr blocks \<and> distinct (map fst blocks) \<and>
     (\<forall>k \<in> fst ` set blocks. upper k = k) \<and>
     (\<forall>name. map_of blocks name = after_loop ([], None) (sig_lines f) name)"
proof -
  obtain st' where l: "for_loop parse_line ([], None) f = Inr st'" and i: "parse_inv st'"
    using parse_loop_inv [OF parse_inv_init] by blast
  have "\<forall>name. map_of (fst st') name = after_loop ([], None) (sig_lines f) name"
    using parse_loop_char [OF parse_inv_init l] by simp
  moreover have "parse_ev5_blocks f = Inr (fst st')"
    using l by (simp add: parse_ev5_blocks_def split: prod.splits)
  ultimately show ?thesis using i by (simp add: parse_inv_def)
qed

lemma parse_line_no_header:
  "header_match (strip p) = None \<Longrightarrow> parse_line ([], None) p = Inr ([], None)"
  by (simp add: parse_line_def Let_def)

lemma parse_loop_no_header:
  "\<forall>p \<in> set pre. header_match (strip p) = None \<Longrightarrow>
   for_loop parse_line ([], None) (pre @ f) = for_loop parse_line ([], None) f"
  by (induction pre) (simp_all add: parse_line_no_header)

lemma sig_lines_append: "sig_lines (xs @ ys) = sig_lines xs @ sig_lines ys"
  by (simp add: sig_lines_def)

lemma spec_after_last_header_append:
  "spec_after_last_header name ys = Some c \<Longrightarrow> spec_after_last_header name (xs @ ys) = Some c"
  by (induction xs) simp_all

lemma spec_after_last_header_None:
  "\<forall>h \<in> set ls. header_name h \<noteq> Some name \<Longrightarrow> spec_after_last_header name ls = None"
  by (induction ls) simp_all

lemma header_name_notes: "header_name ''-- NOTES --'' = Some ''NOTES''"
  by code_simp

section \<open>Block membership\<close>

text \<open>
  What the parser returns, for every file and every block name: parsing never raises, no
  block name occurs twice, and a non-empty name is mapped exactly to the trimmed,
  non-empty, non-comment, non-header lines that follow the last header of that name up to
  the next header or the end of the file (\<open>spec_block_lines\<close>); a name with no header has no
  block. The empty name is the exception: when a header with the empty name exists, its
  block is there with no rows, whatever follows the header.
\<close>

lemma parse_ev5_blocks_membership:
  "\<exists>blocks. parse_ev5_blocks f = Inr blocks \<and> distinct (map fst blocks) \<and>
     (\<forall>name. map_of blocks name =
        (if name = [] then map_option (\<lambda>c. []) (spec_block_lines [] f)
         else spec_block_lines name f))"
proof -
  obtain blocks where b: "parse_ev5_blocks f = Inr blocks" "distinct (map fst blocks)"
    "\<forall>name. map_of blocks name = after_loop ([], None) (sig_lines f) name"
    using parse_ev5_blocks_char [of f] by blast
  have "map_of blocks name =
        (if name = [] then map_option (\<lambda>c. []) (spec_block_lines [] f)
         else spec_block_lines name f)" for name
    using b(3) by (simp add: after_loop_def spec_block_lines_def split: option.splits)
  then show ?thesis using b(1,2) by blast
qed

text \<open>Lines before the first header belong to no block: a file parses as it does without them.\<close>

lemma parse_ev5_blocks_before_first_header:
  "\<forall>p \<in> set pre. header_match (strip p) = None \<Longrightarrow>
   parse_ev5_blocks (pre @ f) = parse_ev5_blocks f"
  by (simp add: parse_ev5_blocks_def parse_loop_no_header)

text \<open>
  C6. Every block name of the parsed document maps exactly to the lines that follow the
  last header of that name and precede the next header or the end of the file. The parser
  does so for every non-empty name (the lemma above) and misses the empty name. The line
  \<open>-- --\<close> matches the header pattern with a name of one space, which trims to the empty
  string; the block is created by \<^verbatim>\<open>blocks[current_block] = []\<close>, but
  \<^verbatim>\<open>if current_block:\<close> is false for the empty string as it is for \<^verbatim>\<open>None\<close>, and the row after
  the header is not appended. On the file with the lines \<open>-- --\<close> and \<open>X|Y\<close> the parser
  returns the empty-named block with no rows, where the claim gives it the row \<open>X|Y\<close>; under
  the header \<open>-- A --\<close> the same row is kept.
\<close>

theorem empty_block_name_drops_rows:
  "parse_ev5_blocks [''-- --'', ''X|Y''] = Inr [([], [])] \<and>
   spec_block_lines [] [''-- --'', ''X|Y''] = Some [''X|Y''] \<and>
   parse_ev5_blocks [''-- A --'', ''X|Y''] = Inr [(''A'', [''X|Y''])]"
  by code_simp

section \<open>Scenario D: the repetition threshold of a header\<close>

text \<open>
  C3, as amended. A line with one delimiter on each side, \<open>- NOTES -\<close>, does not match
  the header pattern. A line that trims to \<open>-- NOTES --\<close> does (two repetitions meet the
  threshold of \<^verbatim>\<open>-{2,}\<close>): in every file it opens or resets the block \<open>NOTES\<close>, and unless a
  later header opens \<open>NOTES\<close> again, the rows of that block are the trimmed, non-empty,
  non-comment lines between it and the next header.
\<close>

theorem notes_header_opens_block:
  "header_match ''- NOTES -'' = None \<and>
   (strip l = ''-- NOTES --'' \<and> (\<forall>h \<in> set rest. header_name (strip h) \<noteq> Some ''NOTES'') \<longrightarrow>
      (\<exists>blocks. parse_ev5_blocks (pre @ l # rest) = Inr blocks \<and>
         map_of blocks ''NOTES'' =
           Some (takeWhile (\<lambda>x. header_match x = None) (sig_lines rest))))"
proof
  show "header_match ''- NOTES -'' = None" by code_simp
next
  show "strip l = ''-- NOTES --'' \<and> (\<forall>h \<in> set rest. header_name (strip h) \<noteq> Some ''NOTES'') \<longrightarrow>
      (\<exists>blocks. parse_ev5_blocks (pre @ l # rest) = Inr blocks \<and>
         map_of blocks ''NOTES'' =
           Some (takeWhile (\<lambda>x. header_match x = None) (sig_lines rest)))"
  proof
    assume a: "strip l = ''-- NOTES --'' \<and> (\<forall>h \<in> set rest. header_name (strip h) \<noteq> Some ''NOTES'')"
    then have "\<forall>h \<in> set (sig_lines rest). header_name h \<noteq> Some ''NOTES''"
      by (auto simp: sig_lines_def)
    then have n: "spec_after_last_header ''NOTES'' (sig_lines rest) = None"
      by (rule spec_after_last_header_None)
    have s: "sig_lines (l # rest) = ''-- NOTES --'' # sig_lines rest"
      using a by (simp add: sig_lines_Cons startswith_def)
    have "spec_after_last_header ''NOTES'' (sig_lines (l # rest)) =
        Some (takeWhile (\<lambda>x. header_match x = None) (sig_lines rest))"
      by (simp add: s n header_name_notes)
    then have "spec_after_last_header ''NOTES'' (sig_lines (pre @ l # rest)) =
        Some (takeWhile (\<lambda>x. header_match x = None) (sig_lines rest))"
      by (simp add: sig_lines_append spec_after_last_header_append)
    then show "\<exists>blocks. parse_ev5_blocks (pre @ l # rest) = Inr blocks \<and>
         map_of blocks ''NOTES'' =
           Some (takeWhile (\<lambda>x. header_match x = None) (sig_lines rest))"
      using parse_ev5_blocks_char [of "pre @ l # rest"] by (auto simp: after_loop_def)
  qed
qed

text \<open>An instance, between two other blocks.\<close>

theorem notes_header_opens_block_witness:
  "\<exists>blocks. parse_ev5_blocks ([''--- A ---'', ''1''] @ '' -- NOTES -- '' # [''x|y'', '''', '' z'', ''--- B ---'', ''2'']) = Inr blocks \<and>
     map_of blocks ''NOTES'' = Some [''x|y'', ''z'']"
proof -
  let ?rest = "[''x|y'', '''', '' z'', ''--- B ---'', ''2'']"
  have 1: "strip '' -- NOTES -- '' = ''-- NOTES --''" by code_simp
  have 2: "\<forall>h \<in> set ?rest. header_name (strip h) \<noteq> Some ''NOTES''" by code_simp
  have 3: "takeWhile (\<lambda>x. header_match x = None) (sig_lines ?rest) = [''x|y'', ''z'']" by code_simp
  from notes_header_opens_block [of "'' -- NOTES -- ''" ?rest "[''--- A ---'', ''1'']"] 1 2 3
  show ?thesis by simp
qed

text \<open>The claim as stated fails: the line opens a block, and the next line is its row.\<close>

theorem notes_header_opens_block_counterexample:
  "parse_ev5_blocks [''-- NOTES --'', ''X|Y''] = Inr [(''NOTES'', [''X|Y''])]"
  by code_simp

section \<open>The validator's loops\<close>

lemma check_row_invariant:
  assumes "check_row vl vft vc schema block st nr = Inr st'" and "P st"
    and "\<And>ln parts s fc s'. P s \<Longrightarrow> check_field vl vft vc block ln parts s fc = Inr s' \<Longrightarrow> P s'"
  shows "P st'"
proof -
  obtain ln row where nr: "nr = (ln, row)" by (cases nr)
  from assms(1) obtain items where
    l: "for_loop (check_field vl vft vc block ln (split (CHR ''|'') row)) st items = Inr st'"
    by (auto simp: check_row_def nr Let_def split: option.splits)
  show ?thesis by (rule for_loop_invariant [where P = P, OF l assms(2)]) (rule assms(3))
qed

lemma check_block_invariant:
  assumes "check_block vl vft vc schema st br = Inr st'" and "P st"
    and "\<And>block ln parts s fc s'. P s \<Longrightarrow> check_field vl vft vc block ln parts s fc = Inr s' \<Longrightarrow> P s'"
  shows "P st'"
proof -
  obtain block rows where br: "br = (block, rows)" by (cases br)
  show ?thesis
  proof (cases "map_of schema (upper block) = None")
    case True
    then show ?thesis using assms(1,2) by (simp add: check_block_def br)
  next
    case False
    then have l: "for_loop (check_row vl vft vc schema block) st (enumerate1 rows) = Inr st'"
      using assms(1) False by (simp add: check_block_def br)
    show ?thesis
    proof (rule for_loop_invariant [where P = P, OF l assms(2)])
      fix s x s'
      assume "P s" "check_row vl vft vc schema block s x = Inr s'"
      then show "P s'" using check_row_invariant [of vl vft vc schema block s x s' P] assms(3)
        by blast
    qed
  qed
qed

lemma validate_invariant:
  assumes "validate_ev5_blocks f schema valid_codes vft vc = Inr r" and "P (0, [])"
    and "\<And>vl block ln parts s fc s'. P s \<Longrightarrow> check_field vl vft vc block ln parts s fc = Inr s' \<Longrightarrow> P s'"
  shows "P r"
proof -
  from assms(1) obtain blocks where
    l: "for_loop (check_block (build_lookup valid_codes) vft vc schema) (0, []) blocks = Inr r"
    by (auto simp: validate_ev5_blocks_def Let_def split: sum.splits)
  show ?thesis
  proof (rule for_loop_invariant [where P = P, OF l assms(2)])
    fix s x s'
    assume "P s" "check_block (build_lookup valid_codes) vft vc schema s x = Inr s'"
    then show "P s'"
      using check_block_invariant [of "build_lookup valid_codes" vft vc schema s x s' P] assms(3)
      by blast
  qed
qed

lemma check_field_count:
  "check_field vl vft vc block ln parts s fc = Inr s' \<Longrightarrow>
   length (snd s) \<le> fst s \<Longrightarrow> length (snd s') \<le> fst s'"
  by (cases s; cases fc)
     (auto simp: check_field_def Let_def split: sum.splits if_splits option.splits)

lemma check_field_no_FIELD:
  "check_field vl False vc block ln parts s fc = Inr s' \<Longrightarrow>
   list_all (\<lambda>x. InvalidType x \<noteq> ''FIELD'') (snd s) \<Longrightarrow>
   list_all (\<lambda>x. InvalidType x \<noteq> ''FIELD'') (snd s')"
  by (cases s; cases fc)
     (auto simp: check_field_def Let_def split: sum.splits if_splits option.splits)

section \<open>Checked count and findings\<close>

text \<open>
  C5. Whenever the validator returns, for any file, schema, catalog and toggles, the
  number of findings is at most the checked count: every finding is appended after its
  occurrence was counted, and an occurrence appends at most one finding.
\<close>

theorem checked_count_bounds_findings:
  "validate_ev5_blocks f schema valid_codes validate_field_types validate_codes =
     Inr (checked_count, invalid_entries) \<Longrightarrow>
   length invalid_entries \<le> checked_count"
  using validate_invariant [of f schema valid_codes validate_field_types validate_codes
      "(checked_count, invalid_entries)" "\<lambda>s. length (snd s) \<le> fst s"]
    check_field_count
  by fastforce

section \<open>The two-stage check\<close>

text \<open>
  C1, as amended. For every checked field occurrence (the index is below the column count,
  the column is read and its trimmed value is not empty), when field-type validation is
  enabled and the trimmed, upper-cased field name is not a key of the code index, the
  validator counts the occurrence and appends exactly one finding, of kind \<open>FIELD\<close>, whose
  expected-codes text is \<open>Field type not recognized\<close>; no \<open>CODE\<close> finding is appended for
  that occurrence. With field-type validation disabled, no finding of a returned list is
  of kind \<open>FIELD\<close>.
\<close>

theorem field_finding:
  "(\<not> int (length parts) \<le> col - 1 \<and> py_index parts (col - 1) = Inr p \<and>
    upper (strip p) \<noteq> [] \<and> fmlookup valid_lookup (upper (strip field_type)) = None \<longrightarrow>
      check_field valid_lookup True validate_codes block line_num parts
        (checked_count, invalid_entries) (field_type, col) =
      Inr (Suc checked_count, invalid_entries @
        [\<lparr>Block = block, Field = field_type, Value = upper (strip p), Line = line_num,
          Column = col, ExpectedCodes = ''Field type not recognized'',
          InvalidType = ''FIELD'', Status = ''INVALID''\<rparr>])) \<and>
   (validate_ev5_blocks f schema valid_codes False validate_codes = Inr (n, findings) \<longrightarrow>
      list_all (\<lambda>x. InvalidType x \<noteq> ''FIELD'') findings)"
proof (intro conjI impI)
  assume "\<not> int (length parts) \<le> col - 1 \<and> py_index parts (col - 1) = Inr p \<and>
    upper (strip p) \<noteq> [] \<and> fmlookup valid_lookup (upper (strip field_type)) = None"
  then show "check_field valid_lookup True validate_codes block line_num parts
        (checked_count, invalid_entries) (field_type, col) =
      Inr (Suc checked_count, invalid_entries @
        [\<lparr>Block = block, Field = field_type, Value = upper (strip p), Line = line_num,
          Column = col, ExpectedCodes = ''Field type not recognized'',
          InvalidType = ''FIELD'', Status = ''INVALID''\<rparr>])"
    by (simp add: check_field_def Let_def)
next
  assume "validate_ev5_blocks f schema valid_codes False validate_codes = Inr (n, findings)"
  then show "list_all (\<lambda>x. InvalidType x \<noteq> ''FIELD'') findings"
    using validate_invariant [of f schema valid_codes False validate_codes "(n, findings)"
        "\<lambda>s. list_all (\<lambda>x. InvalidType x \<noteq> ''FIELD'') (snd s)"]
      check_field_no_FIELD
    by fastforce
qed

section \<open>Ragged rows\<close>


lemma upper_Nil_iff: "upper s = [] \<longleftrightarrow> s = []"
  by (simp add: upper_def)

lemma add_code_keeps: "in_lookup m name code \<Longrightarrow> in_lookup (add_code m v) name code"
  by (auto simp: in_lookup_def add_code_def Let_def split: option.splits)

lemma add_code_adds:
  "upper (strip (dict_get v ''codeName'' [])) \<noteq> [] \<Longrightarrow> upper (strip (dict_get v ''code'' [])) \<noteq> [] \<Longrightarrow>
   in_lookup (add_code m v) (upper (strip (dict_get v ''codeName'' [])))
     (upper (strip (dict_get v ''code'' [])))"
  by (auto simp: in_lookup_def add_code_def Let_def split: option.splits)

lemma foldl_add_code_keeps:
  "in_lookup m name code \<Longrightarrow> in_lookup (foldl add_code m vs) name code"
  by (induction vs arbitrary: m) (simp_all add: add_code_keeps)

lemma foldl_add_code_adds:
  "v \<in> set vs \<Longrightarrow>
   upper (strip (dict_get v ''codeName'' [])) \<noteq> [] \<Longrightarrow> upper (strip (dict_get v ''code'' [])) \<noteq> [] \<Longrightarrow>
   in_lookup (foldl add_code m vs) (upper (strip (dict_get v ''codeName'' [])))
     (upper (strip (dict_get v ''code'' [])))"
proof (induction vs arbitrary: m)
  case Nil
  then show ?case by simp
next
  case (Cons x vs)
  show ?case
  proof (cases "v = x")
    case True
    then show ?thesis using Cons.prems by (simp add: foldl_add_code_keeps add_code_adds)
  next
    case False
    then show ?thesis using Cons by simp
  qed
qed

section \<open>From the catalog to the index\<close>

text \<open>
  C4. For every record of a catalog whose field-type name and code are both non-empty
  after trimming, the index built from the catalog maps the trimmed, upper-cased name to
  a set that contains the trimmed, upper-cased code.
\<close>

theorem catalog_roundtrip:
  "v \<in> set valid_codes \<Longrightarrow>
   strip (dict_get v ''codeName'' []) \<noteq> [] \<Longrightarrow> strip (dict_get v ''code'' []) \<noteq> [] \<Longrightarrow>
   \<exists>codes. fmlookup (build_lookup valid_codes) (upper (strip (dict_get v ''codeName'' []))) = Some codes \<and>
     upper (strip (dict_get v ''code'' [])) |\<in>| codes"
  using foldl_add_code_adds [of v valid_codes fmempty]
  by (auto simp: build_lookup_def in_lookup_def upper_Nil_iff split: option.splits)

text \<open>An instance: a record in lower case with surrounding white space.\<close>

theorem catalog_roundtrip_witness:
  "\<exists>codes. fmlookup (build_lookup other_catalog) ''BELT_TYPE'' = Some codes \<and> ''B'' |\<in>| codes"
proof -
  let ?v = "[''codeName'' \<mapsto> '' belt_type'', ''code'' \<mapsto> ''b '', ''description'' \<mapsto> ''lap'']"
  have 1: "?v \<in> set other_catalog" by (simp add: other_catalog_def)
  have 2: "strip (dict_get ?v ''codeName'' []) \<noteq> []" by code_simp
  have 3: "strip (dict_get ?v ''code'' []) \<noteq> []" by code_simp
  have 4: "upper (strip (dict_get ?v ''codeName'' [])) = ''BELT_TYPE''" by code_simp
  have 5: "upper (strip (dict_get ?v ''code'' [])) = ''B''" by code_simp
  from catalog_roundtrip [OF 1 2 3] show ?thesis unfolding 4 5 .
qed

lemma py_index_in_range:
  "0 \<le> i \<Longrightarrow> i < int (length xs) \<Longrightarrow> py_index xs i = Inr (xs ! nat i)"
  by (simp add: py_index_def)

lemma py_index_last: "xs \<noteq> [] \<Longrightarrow> py_index xs (- 1) = Inr (last xs)"
  by (cases xs rule: rev_cases) (auto simp: py_index_def nth_append)

lemma check_field_total:
  "1 \<le> snd fc \<Longrightarrow> \<exists>s'. check_field vl vft vc block ln parts s fc = Inr s'"
  by (cases s; cases fc)
     (auto simp: check_field_def Let_def py_index_in_range split: option.splits)

lemma check_row_total:
  assumes "map_of schema block = Some items" and "\<forall>fc \<in> set items. 1 \<le> snd fc"
  shows "\<exists>s'. check_row vl vft vc schema block s nr = Inr s'"
proof -
  obtain ln row where nr: "nr = (ln, row)" by (cases nr)
  have "\<exists>s'. for_loop (check_field vl vft vc block ln (split (CHR ''|'') row)) s items = Inr s'"
    by (rule for_loop_total) (use assms(2) check_field_total in blast)
  then show ?thesis using assms(1) by (simp add: check_row_def nr)
qed

lemma check_block_total:
  assumes "\<forall>bi \<in> set schema. \<forall>fc \<in> set (snd bi). 1 \<le> snd fc" and "upper (fst br) = fst br"
  shows "\<exists>s'. check_block vl vft vc schema s br = Inr s'"
proof -
  obtain block rows where br: "br = (block, rows)" by (cases br)
  show ?thesis
  proof (cases "map_of schema (upper block)")
    case None
    then show ?thesis by (simp add: check_block_def br)
  next
    case (Some items)
    then have m: "map_of schema block = Some items" using assms(2) br by simp
    then have "(block, items) \<in> set schema" by (rule map_of_SomeD)
    then have p: "\<forall>fc \<in> set items. 1 \<le> snd fc" using assms(1) by fastforce
    have "\<exists>s'. for_loop (check_row vl vft vc schema block) s (enumerate1 rows) = Inr s'"
      by (rule for_loop_total) (use check_row_total [OF m p] in blast)
    then show ?thesis using Some by (simp add: check_block_def br)
  qed
qed

lemma validate_total:
  assumes "\<forall>bi \<in> set schema. \<forall>fc \<in> set (snd bi). 1 \<le> snd fc"
  shows "\<exists>r. validate_ev5_blocks f schema valid_codes vft vc = Inr r"
proof -
  obtain blocks where b: "parse_ev5_blocks f = Inr blocks" "\<forall>k \<in> fst ` set blocks. upper k = k"
    using parse_ev5_blocks_char [of f] by blast
  have "\<exists>r. for_loop (check_block (build_lookup valid_codes) vft vc schema) (0, []) blocks = Inr r"
  proof (rule for_loop_total)
    fix s x
    assume "x \<in> set blocks"
    then have "upper (fst x) = fst x" using b(2) by simp
    then show "\<exists>s'. check_block (build_lookup valid_codes) vft vc schema s x = Inr s'"
      using check_block_total [OF assms] by blast
  qed
  then show ?thesis using b(1) by (simp add: validate_ev5_blocks_def)
qed

section \<open>The lower bound of the range guard\<close>

lemma check_field_position_0:
  "parts \<noteq> [] \<Longrightarrow>
   check_field vl vft vc block ln parts st (ft, 0) = check_value vl vft vc block ln st (ft, 0) (last parts)"
proof -
  assume p: "parts \<noteq> []"
  then have "\<not> int (length parts) \<le> 0 - 1" by simp
  then show ?thesis using py_index_last [OF p]
    by (cases st) (simp add: check_field_def check_value_def)
qed

lemma check_field_position_positive:
  "1 \<le> col \<Longrightarrow>
   check_field vl vft vc block ln parts st (ft, col) =
     (if int (length parts) < col then Inr st
      else check_value vl vft vc block ln st (ft, col) (parts ! nat (col - 1)))"
  by (cases st) (auto simp: check_field_def check_value_def py_index_in_range)

lemma check_value_empty:
  "upper (strip p) = [] \<Longrightarrow> check_value vl vft vc block ln st fc p = Inr st"
  by (cases st; cases fc) (simp add: check_value_def)

lemma check_value_counted:
  "upper (strip p) \<noteq> [] \<Longrightarrow>
   \<exists>new. check_value vl vft vc block ln (n, fs) (ft, col) p = Inr (Suc n, fs @ new) \<and>
     length new \<le> 1 \<and> list_all (\<lambda>x. Value x = upper (strip p) \<and> Column x = col) new"
  by (auto simp: check_value_def Let_def split: option.splits)

text \<open>
  C10, as amended. The guard before \<^verbatim>\<open>parts[idx]\<close> tests the upper bound only. For a field
  with position 0 and a line with at least one column the guard does not skip the field:
  the index is \<open>-1\<close>, which reads the last column, and the validator does with that text
  what it does with the text of any column in range (\<open>check_value\<close>): a value that is empty
  after trimming is skipped and not counted, any other value is counted and checked, and a
  finding carries the value and the position. For a position of at least 1 the guard is the
  documented skip: the field is skipped when the position exceeds the column count, and
  the column at the position is read and treated in the same way otherwise. When every
  position of the schema is at least 1 the validator returns a result on every file.
\<close>

theorem range_guard_lower_bound:
  "(parts \<noteq> [] \<longrightarrow>
      py_index parts (0 - 1) = Inr (last parts) \<and>
      check_field valid_lookup validate_field_types validate_codes block line_num parts st
        (field_type, 0) =
      check_value valid_lookup validate_field_types validate_codes block line_num st
        (field_type, 0) (last parts)) \<and>
   (1 \<le> col \<longrightarrow>
      check_field valid_lookup validate_field_types validate_codes block line_num parts st
        (field_type, col) =
      (if int (length parts) < col then Inr st
       else check_value valid_lookup validate_field_types validate_codes block line_num st
              (field_type, col) (parts ! nat (col - 1)))) \<and>
   (upper (strip p) = [] \<longrightarrow>
      check_value valid_lookup validate_field_types validate_codes block line_num st
        (field_type, col) p = Inr st) \<and>
   (upper (strip p) \<noteq> [] \<longrightarrow>
      (\<exists>new. check_value valid_lookup validate_field_types validate_codes block line_num
                (checked_count, invalid_entries) (field_type, col) p =
              Inr (Suc checked_count, invalid_entries @ new) \<and>
         length new \<le> 1 \<and>
         list_all (\<lambda>x. Value x = upper (strip p) \<and> Column x = col) new)) \<and>
   ((\<forall>bi \<in> set schema. \<forall>fc \<in> set (snd bi). 1 \<le> snd fc) \<longrightarrow>
      (\<exists>r. validate_ev5_blocks f schema valid_codes validate_field_types validate_codes = Inr r))"
  using check_field_position_0 check_field_position_positive check_value_empty
    check_value_counted validate_total py_index_last
  by (intro conjI impI) simp_all

text \<open>An instance with four checked occurrences and one finding.\<close>

theorem checked_count_bounds_findings_witness:
  "validate_ev5_blocks [''--- SAFETY ---'', ''X|C|Y'', ''X|A|Y''] ragged_schema scenario_catalog
     False True =
   Inr (4, [\<lparr>Block = ''SAFETY'', Field = ''BELT_TYPE'', Value = ''C'', Line = 1, Column = 2,
             ExpectedCodes = ''A, B'', InvalidType = ''CODE'', Status = ''INVALID''\<rparr>]) \<and>
   length [\<lparr>Block = ''SAFETY'', Field = ''BELT_TYPE'', Value = ''C'', Line = 1, Column = 2,
             ExpectedCodes = ''A, B'', InvalidType = ''CODE'', Status = ''INVALID''\<rparr>] \<le> (4::nat)"
proof -
  have r: "validate_ev5_blocks [''--- SAFETY ---'', ''X|C|Y'', ''X|A|Y''] ragged_schema
      scenario_catalog False True =
    Inr (4, [\<lparr>Block = ''SAFETY'', Field = ''BELT_TYPE'', Value = ''C'', Line = 1, Column = 2,
             ExpectedCodes = ''A, B'', InvalidType = ''CODE'', Status = ''INVALID''\<rparr>])"
    unfolding ragged_schema_def scenario_catalog_def by code_simp
  from r checked_count_bounds_findings [OF r] show ?thesis by (rule conjI)
qed

text \<open>An instance of both parts, on the line \<open>X|C|Y\<close>.\<close>

theorem field_finding_witness:
  "check_field (build_lookup scenario_catalog) True True ''SAFETY'' 1 [''X'', ''C'', ''Y'']
     (0, []) (''UNKNOWN_FIELD'', 2) =
   Inr (Suc 0, [] @
     [\<lparr>Block = ''SAFETY'', Field = ''UNKNOWN_FIELD'', Value = ''C'', Line = 1, Column = 2,
       ExpectedCodes = ''Field type not recognized'', InvalidType = ''FIELD'',
       Status = ''INVALID''\<rparr>]) \<and>
   list_all (\<lambda>x. InvalidType x \<noteq> ''FIELD'')
     [\<lparr>Block = ''SAFETY'', Field = ''BELT_TYPE'', Value = ''C'', Line = 1, Column = 2,
       ExpectedCodes = ''A, B'', InvalidType = ''CODE'', Status = ''INVALID''\<rparr>]"
proof -
  have 1: "\<not> int (length [''X'', ''C'', ''Y'']) \<le> 2 - 1" by simp
  have 2: "py_index [''X'', ''C'', ''Y''] (2 - 1) = Inr ''C''" by (simp add: py_index_def)
  have 3: "upper (strip ''C'') = ''C''" by code_simp
  have 4: "fmlookup (build_lookup scenario_catalog) (upper (strip ''UNKNOWN_FIELD'')) = None"
    unfolding scenario_catalog_def by code_simp
  have 5: "validate_ev5_blocks [''--- SAFETY ---'', ''X|C|Y''] ragged_schema scenario_catalog
      False True =
    Inr (2, [\<lparr>Block = ''SAFETY'', Field = ''BELT_TYPE'', Value = ''C'', Line = 1, Column = 2,
             ExpectedCodes = ''A, B'', InvalidType = ''CODE'', Status = ''INVALID''\<rparr>])"
    unfolding ragged_schema_def scenario_catalog_def by code_simp
  note t = field_finding [where parts = "[''X'', ''C'', ''Y'']" and col = 2 and p = "''C''"
      and valid_lookup = "build_lookup scenario_catalog" and field_type = "''UNKNOWN_FIELD''"
      and validate_codes = True and block = "''SAFETY''" and line_num = 1
      and checked_count = 0 and invalid_entries = "[]"
      and f = "[''--- SAFETY ---'', ''X|C|Y'']" and schema = ragged_schema
      and valid_codes = scenario_catalog and n = 2
      and findings = "[\<lparr>Block = ''SAFETY'', Field = ''BELT_TYPE'', Value = ''C'', Line = 1,
             Column = 2, ExpectedCodes = ''A, B'', InvalidType = ''CODE'',
             Status = ''INVALID''\<rparr>]"]
  have a: "check_field (build_lookup scenario_catalog) True True ''SAFETY'' 1 [''X'', ''C'', ''Y'']
     (0, []) (''UNKNOWN_FIELD'', 2) =
   Inr (Suc 0, [] @
     [\<lparr>Block = ''SAFETY'', Field = ''UNKNOWN_FIELD'', Value = ''C'', Line = 1, Column = 2,
       ExpectedCodes = ''Field type not recognized'', InvalidType = ''FIELD'',
       Status = ''INVALID''\<rparr>])"
    using t 1 2 3 4 by simp
  have b: "list_all (\<lambda>x. InvalidType x \<noteq> ''FIELD'')
     [\<lparr>Block = ''SAFETY'', Field = ''BELT_TYPE'', Value = ''C'', Line = 1, Column = 2,
       ExpectedCodes = ''A, B'', InvalidType = ''CODE'', Status = ''INVALID''\<rparr>]"
    using t 5 by blast
  from a b show ?thesis by (rule conjI)
qed

text \<open>
  The claim as stated gives the text in lower case; the text the validator writes begins
  with a capital letter (Scenario C of the specification).
\<close>

theorem field_finding_counterexample:
  "validate_ev5_blocks [''--- SAFETY ---'', ''X|C|Y''] [(''SAFETY'', [(''UNKNOWN_FIELD'', 2)])]
     scenario_catalog True True =
   Inr (1, [\<lparr>Block = ''SAFETY'', Field = ''UNKNOWN_FIELD'', Value = ''C'', Line = 1, Column = 2,
             ExpectedCodes = ''Field type not recognized'', InvalidType = ''FIELD'',
             Status = ''INVALID''\<rparr>]) \<and>
   ''Field type not recognized'' \<noteq> ''field type not recognized''"
  unfolding scenario_catalog_def by code_simp


text \<open>
  An instance: position 0 on the lines \<open>X|C|Y\<close> and \<open>X|C|\<close>, positions 3 and 4 on \<open>X|C|Y\<close>.
\<close>

theorem range_guard_lower_bound_witness:
  "check_field (build_lookup scenario_catalog) False True ''SAFETY'' 1 [''X'', ''C'', ''Y'']
     (0, []) (''BELT_TYPE'', 0) =
   Inr (1, [\<lparr>Block = ''SAFETY'', Field = ''BELT_TYPE'', Value = ''Y'', Line = 1, Column = 0,
             ExpectedCodes = ''A, B'', InvalidType = ''CODE'', Status = ''INVALID''\<rparr>]) \<and>
   check_field (build_lookup scenario_catalog) False True ''SAFETY'' 1 [''X'', ''C'', []]
     (0, []) (''BELT_TYPE'', 0) = Inr (0, []) \<and>
   check_field (build_lookup scenario_catalog) False True ''SAFETY'' 1 [''X'', ''C'', ''Y'']
     (0, []) (''BELT_TYPE'', 4) = Inr (0, []) \<and>
   check_field (build_lookup scenario_catalog) False True ''SAFETY'' 1 [''X'', ''C'', ''Y'']
     (0, []) (''BELT_TYPE'', 3) =
   Inr (1, [\<lparr>Block = ''SAFETY'', Field = ''BELT_TYPE'', Value = ''Y'', Line = 1, Column = 3,
             ExpectedCodes = ''A, B'', InvalidType = ''CODE'', Status = ''INVALID''\<rparr>]) \<and>
   (\<exists>r. validate_ev5_blocks [''--- SAFETY ---'', ''X|C|Y''] ragged_schema scenario_catalog
          False True = Inr r)"
proof -
  let ?vl = "build_lookup scenario_catalog"
  let ?parts = "[''X'', ''C'', ''Y'']"
  let ?blank = "[''X'', ''C'', []]"
  note t = range_guard_lower_bound [where valid_lookup = ?vl and validate_field_types = False
      and validate_codes = True and block = "''SAFETY''" and line_num = 1 and st = "(0, [])"
      and field_type = "''BELT_TYPE''" and schema = ragged_schema
      and f = "[''--- SAFETY ---'', ''X|C|Y'']" and valid_codes = scenario_catalog]
  have v0: "check_value ?vl False True ''SAFETY'' 1 (0, []) (''BELT_TYPE'', 0) ''Y'' =
      Inr (1, [\<lparr>Block = ''SAFETY'', Field = ''BELT_TYPE'', Value = ''Y'', Line = 1, Column = 0,
             ExpectedCodes = ''A, B'', InvalidType = ''CODE'', Status = ''INVALID''\<rparr>])"
    unfolding scenario_catalog_def by code_simp
  have v3: "check_value ?vl False True ''SAFETY'' 1 (0, []) (''BELT_TYPE'', 3) ''Y'' =
      Inr (1, [\<lparr>Block = ''SAFETY'', Field = ''BELT_TYPE'', Value = ''Y'', Line = 1, Column = 3,
             ExpectedCodes = ''A, B'', InvalidType = ''CODE'', Status = ''INVALID''\<rparr>])"
    unfolding scenario_catalog_def by code_simp
  have e: "upper (strip []) = []" by code_simp
  have s: "\<forall>bi \<in> set ragged_schema. \<forall>fc \<in> set (snd bi). 1 \<le> snd fc"
    by (simp add: ragged_schema_def)
  have a: "check_field ?vl False True ''SAFETY'' 1 ?parts (0, []) (''BELT_TYPE'', 0) =
      Inr (1, [\<lparr>Block = ''SAFETY'', Field = ''BELT_TYPE'', Value = ''Y'', Line = 1, Column = 0,
             ExpectedCodes = ''A, B'', InvalidType = ''CODE'', Status = ''INVALID''\<rparr>])"
    using t [where parts = ?parts] v0 by simp
  have b: "check_field ?vl False True ''SAFETY'' 1 ?blank (0, []) (''BELT_TYPE'', 0) = Inr (0, [])"
    using t [where parts = ?blank and p = "[]" and col = 0] e by simp
  have c: "check_field ?vl False True ''SAFETY'' 1 ?parts (0, []) (''BELT_TYPE'', 4) = Inr (0, [])"
    using t [where parts = ?parts and col = 4] by simp
  have d: "check_field ?vl False True ''SAFETY'' 1 ?parts (0, []) (''BELT_TYPE'', 3) =
      Inr (1, [\<lparr>Block = ''SAFETY'', Field = ''BELT_TYPE'', Value = ''Y'', Line = 1, Column = 3,
             ExpectedCodes = ''A, B'', InvalidType = ''CODE'', Status = ''INVALID''\<rparr>])"
    using t [where parts = ?parts and col = 3] v3 by simp
  have r: "\<exists>r. validate_ev5_blocks [''--- SAFETY ---'', ''X|C|Y''] ragged_schema scenario_catalog
          False True = Inr r"
    using t s by blast
  from a b c d r show ?thesis by blast
qed

text \<open>
  The claim as stated fails on a line whose last column is blank: the field at position 0 is
  skipped and nothing is counted.
\<close>

theorem range_guard_lower_bound_counterexample:
  "validate_ev5_blocks [''--- SAFETY ---'', ''X|C|''] [(''SAFETY'', [(''BELT_TYPE'', 0)])]
     scenario_catalog False True = Inr (0, [])"
  unfolding scenario_catalog_def by code_simp

text \<open>A position below \<open>-len(parts) + 1\<close> is not skipped either: the read raises.\<close>

lemma negative_position_raises:
  "validate_ev5_blocks [''--- SAFETY ---'', ''X|C|Y''] [(''SAFETY'', [(''BELT_TYPE'', - 3)])]
     scenario_catalog False True = Inl IndexError"
  unfolding scenario_catalog_def by code_simp

section \<open>Determinism\<close>

text \<open>\<^verbatim>\<open>sorted\<close> removes the iteration order: every run sorts to the same list.\<close>

lemma sort_iteration: "iterates h \<Longrightarrow> sort (h S) = sorted_list_of_fset S"
proof -
  assume "iterates h"
  then have d: "distinct (h S)" and s: "set (h S) = fset S" by (simp_all add: iterates_def)
  have "sorted_list_of_fset S = sorted_list_of_set (set (h S))"
    by (simp add: sorted_list_of_fset.rep_eq s)
  also have "\<dots> = sort (remdups (h S))" by (rule sorted_list_of_set_sort_remdups)
  also have "\<dots> = sort (h S)" using d by (simp add: distinct_remdups_id)
  finally show ?thesis by simp
qed

lemma check_field_run_eq:
  assumes "iterates h"
  shows "check_field_run h = check_field"
  unfolding check_field_run_def [abs_def] check_field_def [abs_def] sort_iteration [OF assms]
  by (rule refl)

lemma check_row_run_eq:
  assumes "iterates h"
  shows "check_row_run h = check_row"
  unfolding check_row_run_def [abs_def] check_row_def [abs_def] check_field_run_eq [OF assms]
  by (rule refl)

lemma check_block_run_eq:
  assumes "iterates h"
  shows "check_block_run h = check_block"
  unfolding check_block_run_def [abs_def] check_block_def [abs_def] check_row_run_eq [OF assms]
  by (rule refl)

lemma validate_ev5_blocks_run_eq:
  assumes "iterates h"
  shows "validate_ev5_blocks_run h = validate_ev5_blocks"
  unfolding validate_ev5_blocks_run_def [abs_def] validate_ev5_blocks_def [abs_def]
    check_block_run_eq [OF assms]
  by (rule refl)

lemma distinct_sorted_list_of_fset: "distinct (sorted_list_of_fset S)"
  by (simp add: sorted_list_of_fset.rep_eq)

lemma iterates_ascending: "iterates ascending"
  by (simp add: iterates_def ascending_def distinct_sorted_list_of_fset)

lemma iterates_descending: "iterates descending"
  by (simp add: iterates_def descending_def distinct_sorted_list_of_fset)

text \<open>
  C8. Two runs of the validator on the same lines, schema, catalog (hence code index) and
  toggles return the same checked count and the same findings in the same order, whatever
  order each of the two runs iterates its sets in. The one step of the validator that
  depends on that order, the iteration of a code set for the expected-codes text, goes
  through \<^verbatim>\<open>sorted\<close>.
\<close>

theorem validate_deterministic:
  "iterates h1 \<Longrightarrow> iterates h2 \<Longrightarrow>
   validate_ev5_blocks_run h1 f schema valid_codes validate_field_types validate_codes =
   validate_ev5_blocks_run h2 f schema valid_codes validate_field_types validate_codes"
  by (simp add: validate_ev5_blocks_run_eq)

text \<open>
  An instance: a run that iterates in ascending and one that iterates in descending
  order. Without \<^verbatim>\<open>sorted\<close> the two runs would write different expected-codes texts.
\<close>

theorem validate_deterministic_witness:
  "validate_ev5_blocks_run ascending [''--- SAFETY ---'', ''X|C|Y''] ragged_schema
     scenario_catalog True True =
   validate_ev5_blocks_run descending [''--- SAFETY ---'', ''X|C|Y''] ragged_schema
     scenario_catalog True True \<and>
   validate_ev5_blocks_run descending [''--- SAFETY ---'', ''X|C|Y''] ragged_schema
     scenario_catalog True True =
   Inr (2, [\<lparr>Block = ''SAFETY'', Field = ''BELT_TYPE'', Value = ''C'', Line = 1, Column = 2,
             ExpectedCodes = ''A, B'', InvalidType = ''CODE'', Status = ''INVALID''\<rparr>,
            \<lparr>Block = ''SAFETY'', Field = ''LAST'', Value = ''Y'', Line = 1, Column = 3,
             ExpectedCodes = ''Field type not recognized'', InvalidType = ''FIELD'',
             Status = ''INVALID''\<rparr>]) \<and>
   unsorted_expected ascending {|''A'', ''B''|} = ''A, B'' \<and>
   unsorted_expected descending {|''A'', ''B''|} = ''B, A''"
proof -
  have 1: "validate_ev5_blocks_run descending [''--- SAFETY ---'', ''X|C|Y''] ragged_schema
     scenario_catalog True True =
   Inr (2, [\<lparr>Block = ''SAFETY'', Field = ''BELT_TYPE'', Value = ''C'', Line = 1, Column = 2,
             ExpectedCodes = ''A, B'', InvalidType = ''CODE'', Status = ''INVALID''\<rparr>,
            \<lparr>Block = ''SAFETY'', Field = ''LAST'', Value = ''Y'', Line = 1, Column = 3,
             ExpectedCodes = ''Field type not recognized'', InvalidType = ''FIELD'',
             Status = ''INVALID''\<rparr>])"
    unfolding ragged_schema_def scenario_catalog_def by code_simp
  have 2: "unsorted_expected ascending {|''A'', ''B''|} = ''A, B''" by code_simp
  have 3: "unsorted_expected descending {|''A'', ''B''|} = ''B, A''" by code_simp
  from validate_deterministic [OF iterates_ascending iterates_descending] 1 2 3
  show ?thesis by blast
qed

section \<open>The layout of the worksheet\<close>

lemma length_sorted_list_of_fset: "length (sorted_list_of_fset S) = fcard S"
  by (simp add: sorted_list_of_fset.rep_eq fcard.rep_eq)

lemma py_max_Max: "xs \<noteq> [] \<Longrightarrow> py_max xs = Inr (Max (set xs))"
proof (cases xs)
  case Nil
  then show "xs \<noteq> [] \<Longrightarrow> ?thesis" by simp
next
  case (Cons a list)
  then show ?thesis using Max.set_eq_fold [of a list] by simp
qed

lemma set_dict_values: "set (dict_values d) = {v. \<exists>k. fmlookup d k = Some v}"
  by (force simp: dict_values_def List.map_filter_def fmlookup_dom_iff image_iff)

lemma excel_cells:
  "\<forall>f \<in> set fs. fmlookup valid_codes f \<noteq> None \<Longrightarrow>
   for_loop (excel_cell valid_codes i) row fs = Inr (row @ map (cell_at valid_codes i) fs)"
proof (induction fs arbitrary: row)
  case Nil
  then show ?case by simp
next
  case (Cons f fs)
  then obtain cs where "fmlookup valid_codes f = Some cs" by auto
  then have "excel_cell valid_codes i row f = Inr (row @ [cell_at valid_codes i f])"
    by (simp add: excel_cell_def cell_at_def Let_def length_sorted_list_of_fset)
  then show ?case using Cons by simp
qed

lemma excel_rows:
  "\<forall>f \<in> set fs. fmlookup valid_codes f \<noteq> None \<Longrightarrow>
   for_loop (excel_row valid_codes fs) ws is =
     Inr (ws @ map (\<lambda>i. map (cell_at valid_codes i) fs) is)"
proof (induction "is" arbitrary: ws)
  case Nil
  then show ?case by simp
next
  case (Cons i "is")
  have "excel_row valid_codes fs ws i = Inr (ws @ [map (cell_at valid_codes i) fs])"
    using excel_cells [OF Cons.prems, of i "[]"] by (simp add: excel_row_def)
  then show ?case using Cons by simp
qed

lemma save_valid_codes_excel_grid:
  assumes "fmdom valid_codes \<noteq> {||}"
  shows "save_valid_codes_excel valid_codes =
     Inr (sorted_list_of_fset (fmdom valid_codes) #
          map (\<lambda>i. map (cell_at valid_codes i) (sorted_list_of_fset (fmdom valid_codes)))
            [0 ..< Max (fcard ` {cs. \<exists>f. fmlookup valid_codes f = Some cs})])"
proof -
  let ?fs = "sorted_list_of_fset (fmdom valid_codes)"
  have d: "\<forall>f \<in> set ?fs. fmlookup valid_codes f \<noteq> None"
    by (simp add: fmlookup_dom_iff)
  obtain f where "f |\<in>| fmdom valid_codes" using assms by auto
  then obtain cs where "fmlookup valid_codes f = Some cs" by (auto simp: fmlookup_dom_iff)
  then have "cs \<in> set (dict_values valid_codes)" by (auto simp: set_dict_values)
  then have ne: "map fcard (dict_values valid_codes) \<noteq> []" by auto
  have "py_max (map fcard (dict_values valid_codes)) =
      Inr (Max (fcard ` {cs. \<exists>f. fmlookup valid_codes f = Some cs}))"
    using py_max_Max [OF ne] by (simp add: set_dict_values)
  then show ?thesis
    using excel_rows [OF d] by (simp add: save_valid_codes_excel_def Let_def)
qed

lemma finite_code_sets: "finite {cs. \<exists>f. fmlookup valid_codes f = Some cs}"
proof -
  have "{cs. \<exists>f. fmlookup valid_codes f = Some cs} = fset (fmran valid_codes)"
    by (auto simp: fmlookup_ran_iff)
  then show ?thesis by simp
qed

text \<open>
  C9. For every non-empty catalog, \<^verbatim>\<open>save_valid_codes_excel\<close> returns a grid whose first
  row is the sorted list of the field-type names, followed by one row for every index from
  1 to the largest size of a code set; each row has one cell per field, and the cell of
  row \<open>i\<close> under a field holds the \<open>i\<close>-th of the field's sorted codes when the field has
  at least \<open>i\<close> codes and the empty string otherwise.
\<close>

theorem excel_layout:
  assumes "fmdom valid_codes \<noteq> {||}"
  shows "\<exists>ws max_len.
      save_valid_codes_excel valid_codes = Inr ws \<and>
      (\<exists>f cs. fmlookup valid_codes f = Some cs \<and> fcard cs = max_len) \<and>
      (\<forall>f cs. fmlookup valid_codes f = Some cs \<longrightarrow> fcard cs \<le> max_len) \<and>
      length ws = Suc max_len \<and>
      ws ! 0 = sorted_list_of_fset (fmdom valid_codes) \<and>
      (\<forall>i j cs. 1 \<le> i \<and> i \<le> max_len \<and> j < fcard (fmdom valid_codes) \<and>
         fmlookup valid_codes (sorted_list_of_fset (fmdom valid_codes) ! j) = Some cs \<longrightarrow>
         length (ws ! i) = fcard (fmdom valid_codes) \<and>
         ws ! i ! j = (if i \<le> fcard cs then sorted_list_of_fset cs ! (i - 1) else []))"
proof -
  let ?fs = "sorted_list_of_fset (fmdom valid_codes)"
  let ?S = "{cs. \<exists>f. fmlookup valid_codes f = Some cs}"
  let ?m = "Max (fcard ` ?S)"
  let ?ws = "?fs # map (\<lambda>i. map (cell_at valid_codes i) ?fs) [0 ..< ?m]"
  have fin: "finite (fcard ` ?S)" by (rule finite_imageI) (rule finite_code_sets)
  obtain f where "f |\<in>| fmdom valid_codes" using assms by auto
  then have ne: "fcard ` ?S \<noteq> {}" by (auto simp: fmlookup_dom_iff)
  have "?m \<in> fcard ` ?S" using Max_in [OF fin ne] .
  then obtain cs0 where "cs0 \<in> ?S" "?m = fcard cs0" by (rule imageE)
  then have 1: "\<exists>f cs. fmlookup valid_codes f = Some cs \<and> fcard cs = ?m" by fastforce
  have 2: "\<forall>f cs. fmlookup valid_codes f = Some cs \<longrightarrow> fcard cs \<le> ?m"
    using Max_ge [OF fin] by auto
  have 3: "length ?ws = Suc ?m" by simp
  have 4: "?ws ! 0 = ?fs" by simp
  have 5: "length (?ws ! i) = fcard (fmdom valid_codes) \<and>
      ?ws ! i ! j = (if i \<le> fcard cs then sorted_list_of_fset cs ! (i - 1) else [])"
    if "1 \<le> i" "i \<le> ?m" "j < fcard (fmdom valid_codes)" "fmlookup valid_codes (?fs ! j) = Some cs"
    for i j cs
  proof -
    from that(1) have "i = Suc (i - 1)" by simp
    then obtain k where k: "i = Suc k" ..
    then have "k < ?m" using that(2) by simp
    then have "?ws ! i = map (cell_at valid_codes k) ?fs" by (simp add: k)
    moreover have "j < length ?fs" using that(3) by (simp add: length_sorted_list_of_fset)
    ultimately show ?thesis using that(4) k
      by (auto simp: cell_at_def length_sorted_list_of_fset)
  qed
  show ?thesis
    using save_valid_codes_excel_grid [OF assms] 1 2 3 4 5 by blast
qed

text \<open>An instance: three codes under \<open>BELT_TYPE\<close>, two under \<open>SEAT\<close>.\<close>

theorem excel_layout_witness:
  "save_valid_codes_excel excel_catalog =
     Inr [[''BELT_TYPE'', ''SEAT''], [''A'', ''F''], [''B'', ''R''], [''C'', []]] \<and>
   [[''BELT_TYPE'', ''SEAT''], [''A'', ''F''], [''B'', ''R''], [''C'', []]] ! 3 ! 1 = [] \<and>
   [[''BELT_TYPE'', ''SEAT''], [''A'', ''F''], [''B'', ''R''], [''C'', []]] ! 2 ! 1 = ''R''"
proof -
  let ?g = "[[''BELT_TYPE'', ''SEAT''], [''A'', ''F''], [''B'', ''R''], [''C'', []]]"
  have 0: "fmdom excel_catalog \<noteq> {||}" by (simp add: excel_catalog_def)
  have g: "save_valid_codes_excel excel_catalog = Inr ?g"
    unfolding excel_catalog_def by code_simp
  have f: "sorted_list_of_fset (fmdom excel_catalog) = [''BELT_TYPE'', ''SEAT'']"
    unfolding excel_catalog_def by code_simp
  have l: "fmlookup excel_catalog ''SEAT'' = Some {|''R'', ''F''|}"
    by (simp add: excel_catalog_def)
  have s: "sorted_list_of_fset {|''R'', ''F''|} = [''F'', ''R'']" by code_simp
  have c: "fcard {|''R'', ''F''|} = 2" "fcard (fmdom excel_catalog) = 2"
    unfolding excel_catalog_def by code_simp+
  from excel_layout [OF 0] obtain ws max_len where
    w: "save_valid_codes_excel excel_catalog = Inr ws"
    and m: "length ws = Suc max_len"
    and cell: "\<forall>i j cs. 1 \<le> i \<and> i \<le> max_len \<and> j < fcard (fmdom excel_catalog) \<and>
         fmlookup excel_catalog (sorted_list_of_fset (fmdom excel_catalog) ! j) = Some cs \<longrightarrow>
         length (ws ! i) = fcard (fmdom excel_catalog) \<and>
         ws ! i ! j = (if i \<le> fcard cs then sorted_list_of_fset cs ! (i - 1) else [])"
    by blast
  from w g have ws: "ws = ?g" by simp
  from m have ml: "max_len = 3" by (simp add: ws)
  have a: "?g ! 3 ! 1 = []"
    using cell [rule_format, of 3 1 "{|''R'', ''F''|}"] by (simp add: ml f l c ws)
  have b: "?g ! 2 ! 1 = ''R''"
    using cell [rule_format, of 2 1 "{|''R'', ''F''|}"] by (simp add: ml f l c s ws)
  from g a b show ?thesis by blast
qed

end
